theory Spec2Isabelle
  imports Complex_Main
begin

section \<open>JavaScript values reaching the product validator\<close>

text \<open>
  \<open>validateProductForGeneration(product: any)\<close> receives whatever the catalog request
  produced. The values modelled are those \<open>JSON.parse\<close> can yield, plus \<open>undefined\<close>.
  An object is the list of its own properties (the first binding of a key is the
  property's value).
\<close>

datatype jsval =
    JUndefined
  | JNull
  | JBool bool
  | JNum rat
  | JStr string
  | JArr "jsval list"
  | JObj "(string \<times> jsval) list"

datatype error = TypeError | Error string

text \<open>JavaScript truthiness (\<open>!v\<close> is its negation).\<close>

fun truthy :: "jsval \<Rightarrow> bool" where
  "truthy JUndefined = False"
| "truthy JNull = False"
| "truthy (JBool b) = b"
| "truthy (JNum n) = (n \<noteq> 0)"
| "truthy (JStr s) = (s \<noteq> [])"
| "truthy (JArr xs) = True"
| "truthy (JObj fs) = True"

text \<open>
  \<open>product.image_urls\<close> for a truthy product: the property of an object, and
  \<open>undefined\<close> on an array or a primitive (none of them has a property of that name).
\<close>

fun image_urls :: "jsval \<Rightarrow> jsval" where
  "image_urls (JObj fs) = (case map_of fs ''image_urls'' of Some v \<Rightarrow> v | None \<Rightarrow> JUndefined)"
| "image_urls v = JUndefined"

text \<open>\<open>s.startsWith(p)\<close> on strings.\<close>

definition startsWith :: "string \<Rightarrow> string \<Rightarrow> bool" where
  "startsWith s p = (take (length p) s = p)"

text \<open>
  The validator, check by check in the source's order. \<open>imageUrl.startsWith\<close> is a
  function only on a string: on any other truthy first element the call throws a
  \<open>TypeError\<close>, so the result is an error or a boolean.
\<close>

definition validateProductForGeneration :: "jsval \<Rightarrow> error + bool" where
  "validateProductForGeneration product =
     (if \<not> truthy product then Inr False
      else case image_urls product of
          JArr urls \<Rightarrow>
            (case urls of
               [] \<Rightarrow> Inr False
             | imageUrl # rest \<Rightarrow>
                 if \<not> truthy imageUrl then Inr False
                 else (case imageUrl of
                         JStr s \<Rightarrow> if \<not> startsWith s ''http'' then Inr False else Inr True
                       | _ \<Rightarrow> Inl TypeError))
        | _ \<Rightarrow> Inr False)"

section \<open>One job: catalog, validation, generation with retries\<close>

text \<open>
  The outside world of a job is a set of scripted answers: what the n-th catalog
  request, the n-th image download and the n-th POST to the generation endpoint yield
  (a value, or the \<open>Error\<close> thrown). \<open>fetchProduct\<close> and
  \<open>fetchDifferentProduct\<close> are methods of the service whose bodies are not part of
  the sources; they are taken as such scripted calls.
\<close>

record env =
  catalog :: "nat \<Rightarrow> error + jsval"
  different :: "nat \<Rightarrow> error + jsval"
  productImage :: "nat \<Rightarrow> string \<Rightarrow> error + string"
  rork :: "nat \<Rightarrow> string \<Rightarrow> string \<Rightarrow> error + string"

record job =
  job_id :: string
  position :: int

text \<open>What \<open>imageCache.set(job.position, {id, imageUrl, product, position})\<close> stores.\<close>

record cache_entry =
  entry_id :: string
  entry_imageUrl :: string
  entry_product :: jsval
  entry_position :: int

text \<open>
  The effects of running jobs: how many times each outside call was made, the delays
  slept by \<open>setTimeout\<close> (milliseconds, in order) and the image cache.
\<close>

record world =
  catalogCalls :: nat
  differentCalls :: nat
  imageFetches :: nat
  apiCalls :: nat
  sleeps :: "int list"
  imageCache :: "int \<rightharpoonup> cache_entry"

definition MAX_RETRIES :: nat where
  "MAX_RETRIES = 3"

definition fetchProduct :: "env \<Rightarrow> world \<Rightarrow> (error + jsval) \<times> world" where
  "fetchProduct e w = (catalog e (catalogCalls w), w\<lparr>catalogCalls := Suc (catalogCalls w)\<rparr>)"

definition fetchDifferentProduct :: "env \<Rightarrow> world \<Rightarrow> (error + jsval) \<times> world" where
  "fetchDifferentProduct e w =
     (different e (differentCalls w), w\<lparr>differentCalls := Suc (differentCalls w)\<rparr>)"

definition fetchProductImage :: "env \<Rightarrow> string \<Rightarrow> world \<Rightarrow> (error + string) \<times> world" where
  "fetchProductImage e url w =
     (productImage e (imageFetches w) url, w\<lparr>imageFetches := Suc (imageFetches w)\<rparr>)"

text \<open>
  The closure handed to \<open>retryWithBackoff\<close>: one POST of the user's image and the
  product's image; a response that is not ok throws.
\<close>

definition rorkRequest :: "env \<Rightarrow> string \<Rightarrow> string \<Rightarrow> world \<Rightarrow> (error + string) \<times> world" where
  "rorkRequest e userImageBase64 productImageBase64 w =
     (rork e (apiCalls w) userImageBase64 productImageBase64, w\<lparr>apiCalls := Suc (apiCalls w)\<rparr>)"

text \<open>
  \<open>retryWithBackoff(fn, retries = MAX_RETRIES)\<close>: call \<open>fn\<close>; when it throws and
  \<open>retries\<close> is 0 rethrow, otherwise sleep \<open>1000 * (4 - retries)\<close> ms and recurse
  with \<open>retries - 1\<close>. Its only caller passes the default, so \<open>retries\<close> is a
  natural number.
\<close>

fun retryWithBackoff ::
  "(world \<Rightarrow> (error + 'a) \<times> world) \<Rightarrow> nat \<Rightarrow> world \<Rightarrow> (error + 'a) \<times> world" where
  "retryWithBackoff fn 0 w = fn w"
| "retryWithBackoff fn (Suc r) w =
     (case fn w of
        (Inr v, w') \<Rightarrow> (Inr v, w')
      | (Inl err, w') \<Rightarrow>
          retryWithBackoff fn r (w'\<lparr>sleeps := sleeps w' @ [1000 * (4 - int (Suc r))]\<rparr>))"

text \<open>
  \<open>RorkAIClient.generateVirtualTryOn\<close>: validate, download \<open>image_urls[0]\<close>, then
  the request under \<open>retryWithBackoff\<close>. The last branch cannot be reached after a
  successful validation; it stands for the \<open>TypeError\<close> of reading a URL that is
  not there. The prompt is a string built from the product and only travels in the
  request.
\<close>

definition generateVirtualTryOn ::
  "env \<Rightarrow> string \<Rightarrow> jsval \<Rightarrow> world \<Rightarrow> (error + string) \<times> world" where
  "generateVirtualTryOn e userImageBase64 product w =
     (case validateProductForGeneration product of
        Inl err \<Rightarrow> (Inl err, w)
      | Inr False \<Rightarrow> (Inl (Error ''Product validation failed''), w)
      | Inr True \<Rightarrow>
          (case image_urls product of
             JArr (JStr url # rest) \<Rightarrow>
               (case fetchProductImage e url w of
                  (Inl err, w1) \<Rightarrow> (Inl err, w1)
                | (Inr productImageBase64, w1) \<Rightarrow>
                    retryWithBackoff (rorkRequest e userImageBase64 productImageBase64)
                      MAX_RETRIES w1)
           | _ \<Rightarrow> (Inl TypeError, w)))"

text \<open>
  The \<open>try\<close> block of \<open>processJob\<close>: fetch a product, generate, cache the result
  at the job's position.
\<close>

definition tryGenerate :: "env \<Rightarrow> job \<Rightarrow> string \<Rightarrow> world \<Rightarrow> (error + unit) \<times> world" where
  "tryGenerate e j userImageBase64 w =
     (case fetchProduct e w of
        (Inl err, w1) \<Rightarrow> (Inl err, w1)
      | (Inr product, w1) \<Rightarrow>
          (case generateVirtualTryOn e userImageBase64 product w1 of
             (Inl err, w2) \<Rightarrow> (Inl err, w2)
           | (Inr generatedImage, w2) \<Rightarrow>
               (Inr (),
                w2\<lparr>imageCache := (imageCache w2)(position j \<mapsto>
                      \<lparr>entry_id = job_id j, entry_imageUrl = generatedImage,
                       entry_product = product, entry_position = position j\<rparr>)\<rparr>)))"

text \<open>
  \<open>processJob\<close>: the \<open>try\<close> block, and on any error the \<open>catch\<close> block, which
  fetches a different product. What the source does with that product is a comment
  (\<open>// Retry with different product...\<close>), so nothing more happens here; an error of
  \<open>fetchDifferentProduct\<close> itself leaves \<open>processJob\<close> rejected.
\<close>

definition processJob :: "env \<Rightarrow> job \<Rightarrow> string \<Rightarrow> world \<Rightarrow> (error + unit) \<times> world" where
  "processJob e j userImageBase64 w =
     (case tryGenerate e j userImageBase64 w of
        (Inr u, w') \<Rightarrow> (Inr (), w')
      | (Inl err, w') \<Rightarrow>
          (case fetchDifferentProduct e w' of
             (Inl err2, w'') \<Rightarrow> (Inl err2, w'')
           | (Inr differentProduct, w'') \<Rightarrow> (Inr (), w'')))"

text \<open>Jobs run one after the other, each to its end, whatever its outcome.\<close>

fun processJobs :: "env \<Rightarrow> string \<Rightarrow> job list \<Rightarrow> world \<Rightarrow> world" where
  "processJobs e userImageBase64 [] w = w"
| "processJobs e userImageBase64 (j # js) w =
     processJobs e userImageBase64 js (snd (processJob e j userImageBase64 w))"

definition world0 :: world where
  "world0 = \<lparr>catalogCalls = 0, differentCalls = 0, imageFetches = 0, apiCalls = 0,
             sleeps = [], imageCache = Map.empty\<rparr>"

section \<open>The worker pool\<close>

text \<open>
  \<open>FeedLoadingService\<close>: the counter \<open>activeWorkers\<close>, the queue \<open>jobQueue\<close>, and
  the jobs whose \<open>processJob\<close> promise is still pending (\<open>inflight\<close>): each of them
  carries the \<open>finally\<close> callback that decrements \<open>activeWorkers\<close> once.
\<close>

record service =
  activeWorkers :: int
  jobQueue :: "job list"
  inflight :: "job list"

definition MAX_WORKERS :: int where
  "MAX_WORKERS = 30"

text \<open>
  \<open>processQueue\<close>: while a worker is free and the queue is not empty, \<open>shift()\<close> the
  first job, count it and start it; \<open>if (!job) continue\<close> is the branch of an empty
  queue, which the loop condition excludes. The loop body has no \<open>await\<close>, so no
  promise settles while it runs.
\<close>

function processQueue :: "service \<Rightarrow> service" where
  "processQueue s =
     (if activeWorkers s < MAX_WORKERS \<and> length (jobQueue s) > 0 then
        (case jobQueue s of
           [] \<Rightarrow> processQueue s
         | j # rest \<Rightarrow>
             processQueue (s\<lparr>jobQueue := rest,
                             activeWorkers := activeWorkers s + 1,
                             inflight := inflight s @ [j]\<rparr>))
      else s)"
  by pat_completeness auto
termination
  by (relation "measure (\<lambda>s. length (jobQueue s))") auto

declare processQueue.simps [simp del]

text \<open>
  What happens to the service: \<open>addJobs\<close> puts jobs at the end of the queue (its
  body is not part of the sources, so which jobs it enqueues is left open: any list),
  \<open>processQueue\<close> runs, or the promise of a job in flight settles and its
  \<open>finally\<close> callback runs. \<open>run\<close> is the state of a new service after a history
  of such events.
\<close>

datatype event = AddJobs "job list" | ProcessQueue | Settle job

fun apply_event :: "service \<Rightarrow> event \<Rightarrow> service" where
  "apply_event s (AddJobs js) = s\<lparr>jobQueue := jobQueue s @ js\<rparr>"
| "apply_event s ProcessQueue = processQueue s"
| "apply_event s (Settle j) =
     (if j \<in> set (inflight s)
      then s\<lparr>inflight := remove1 j (inflight s), activeWorkers := activeWorkers s - 1\<rparr>
      else s)"

definition service0 :: service where
  "service0 = \<lparr>activeWorkers = 0, jobQueue = [], inflight = []\<rparr>"

definition run :: "event list \<Rightarrow> service" where
  "run es = foldl apply_event service0 es"

section \<open>Properties the specification states of the pool\<close>



text \<open>The job for position \<open>p\<close> used in the examples.\<close>

definition job_at :: "nat \<Rightarrow> job" where
  "job_at p = \<lparr>job_id = replicate p (CHR ''i''), position = int p\<rparr>"

section \<open>Properties the specification states of a job\<close>

text \<open>
  Delays that grow exponentially: each one is larger than the one before, by a
  constant factor.
\<close>

fun exponential_delays :: "int list \<Rightarrow> bool" where
  "exponential_delays (a # b # c # ds) =
     (a < b \<and> b * b = a * c \<and> exponential_delays (b # c # ds))"
| "exponential_delays [a, b] = (a < b)"
| "exponential_delays ds = True"

text \<open>
  \<open>retryWithBackoff\<close> sleeps once before each retry: the retries taken between two
  worlds are the sleeps added.
\<close>

definition retries_taken :: "world \<Rightarrow> world \<Rightarrow> nat" where
  "retries_taken w w' = length (sleeps w') - length (sleeps w)"

text \<open>Products and outside worlds used in the examples.\<close>

definition tee :: jsval where
  "tee = JObj [(''id'', JNum 1), (''name'', JStr ''Tee''), (''brand_name'', JStr ''Acme''),
               (''image_urls'', JArr [JStr ''https://cdn.example/tee.jpg''])]"

definition bare :: jsval where
  "bare = JObj [(''id'', JNum 2), (''name'', JStr ''Bare''), (''brand_name'', JStr ''Acme''),
                (''image_urls'', JArr [])]"

definition env_failing :: env where
  "env_failing =
     \<lparr>catalog = (\<lambda>n. Inr tee), different = (\<lambda>n. Inr tee),
      productImage = (\<lambda>n url. Inr ''dGVl''),
      rork = (\<lambda>n u p. Inl (Error ''API error: 500''))\<rparr>"

definition env_third_time :: env where
  "env_third_time =
     \<lparr>catalog = (\<lambda>n. Inr tee), different = (\<lambda>n. Inr tee),
      productImage = (\<lambda>n url. Inr ''dGVl''),
      rork = (\<lambda>n u p. if n < 2 then Inl (Error ''API error: 503'')
                        else Inr ''data:image/jpeg;base64,bG9vaw=='')\<rparr>"

definition env_first_time :: env where
  "env_first_time =
     \<lparr>catalog = (\<lambda>n. Inr tee), different = (\<lambda>n. Inr tee),
      productImage = (\<lambda>n url. Inr ''dGVl''),
      rork = (\<lambda>n u p. Inr ''data:image/jpeg;base64,bG9vaw=='')\<rparr>"

definition env_bare :: env where
  "env_bare =
     \<lparr>catalog = (\<lambda>n. Inr bare), different = (\<lambda>n. Inr tee),
      productImage = (\<lambda>n url. Inr ''dGVl''),
      rork = (\<lambda>n u p. Inr ''data:image/jpeg;base64,bG9vaw=='')\<rparr>"


section \<open>The scheduler's window, as the specification describes it\<close>

text \<open>
  Modelled from the spec: the position cache and the job of the specification.
  \<open>addJobs\<close> (the specification's \<open>EnsureWindow\<close>), \<open>getWorkerStats\<close> (its
  \<open>GetStats\<close>) and the store behind them are not in the sources; only their callers
  in \<open>FeedProvider\<close> and \<open>Feed\<close> are. A feed entry is \<open>Pending\<close>, \<open>Claimed\<close>,
  \<open>Ready(artifactRef, productRef)\<close> or \<open>Failed(reason)\<close>; a job is
  \<open>{position, attempt}\<close>.
\<close>

datatype entry_state = Pending | Claimed | Ready string string | Failed string

record sjob =
  sjob_position :: nat
  attempt :: nat

text \<open>
  Modelled from the spec: the scheduler's state, which is not in the sources: the
  position cache, the queue of jobs and the most recent window \<open>{cursor, size}\<close>
  passed to \<open>EnsureWindow\<close>.
\<close>

record scheduler =
  cache :: "nat \<rightharpoonup> entry_state"
  queue :: "sjob list"
  window :: "nat \<times> nat"

text \<open>
  Modelled from the spec: which positions \<open>EnsureWindow\<close> (not in the sources) creates
  a job for: a position not present in the cache, or present only as \<open>Failed\<close> with a
  retryable reason; none for a position that is \<open>Pending\<close>, \<open>Claimed\<close> or \<open>Ready\<close>.
  Which reasons are retryable is a parameter.
\<close>

fun wants_job :: "(string \<Rightarrow> bool) \<Rightarrow> entry_state option \<Rightarrow> bool" where
  "wants_job retryable None = True"
| "wants_job retryable (Some (Failed reason)) = retryable reason"
| "wants_job retryable (Some st) = False"

text \<open>
  Modelled from the spec: \<open>EnsureWindow\<close>'s step for one position (not in the
  sources): where a job is wanted, create it at \<open>attempt = 0\<close>, enqueue it and record
  the position in the cache as \<open>Pending\<close>, the state of an entry that waits for a
  worker; this is the check against the cache that prevents a duplicate enqueue.
\<close>

definition ensure_position :: "(string \<Rightarrow> bool) \<Rightarrow> scheduler \<Rightarrow> nat \<Rightarrow> scheduler" where
  "ensure_position retryable sch p =
     (if wants_job retryable (cache sch p)
      then sch\<lparr>cache := (cache sch)(p \<mapsto> Pending),
               queue := queue sch @ [\<lparr>sjob_position = p, attempt = 0\<rparr>]\<rparr>
      else sch)"

text \<open>
  Modelled from the spec: \<open>EnsureWindow(cursor, size)\<close> (\<open>addJobs\<close> over the window,
  not in the sources): the positions \<open>[cursor, cursor + size)\<close> in ascending order,
  one step each; the window is remembered for \<open>GetStats\<close>.
\<close>

definition EnsureWindow :: "(string \<Rightarrow> bool) \<Rightarrow> nat \<Rightarrow> nat \<Rightarrow> scheduler \<Rightarrow> scheduler" where
  "EnsureWindow retryable cursor wsize sch =
     (foldl (ensure_position retryable) sch [cursor..<cursor + wsize])\<lparr>window := (cursor, wsize)\<rparr>"

text \<open>
  Modelled from the spec: \<open>readyCountInWindow\<close> of \<open>GetStats\<close> (\<open>getWorkerStats\<close>,
  not in the sources): the positions of the most recent window that are \<open>Ready\<close>.
\<close>

definition readyCountInWindow :: "scheduler \<Rightarrow> nat" where
  "readyCountInWindow sch =
     length (filter (\<lambda>p. case cache sch p of Some (Ready artifact product) \<Rightarrow> True | _ \<Rightarrow> False)
               [fst (window sch)..<fst (window sch) + snd (window sch)])"

text \<open>
  Modelled from the spec: \<open>bufferHealth\<close> of \<open>GetStats\<close> (\<open>getWorkerStats\<close>, not in
  the sources): \<open>readyCountInWindow / windowSize\<close>, and 0 when the window size is 0.
  The ratio is exact, a rational number.
\<close>

definition bufferHealth :: "scheduler \<Rightarrow> rat" where
  "bufferHealth sch =
     (if snd (window sch) = 0 then 0
      else of_nat (readyCountInWindow sch) / of_nat (snd (window sch)))"

text \<open>A scheduler used in the examples: positions 10..33 are ready.\<close>

definition sched_24 :: scheduler where
  "sched_24 =
     \<lparr>cache = (\<lambda>p. if 10 \<le> p \<and> p < 34 then Some (Ready ''look'' ''tee'') else None),
      queue = [], window = (0, 0)\<rparr>"

section \<open>The worker pool: bounded concurrency\<close>

lemma processQueue_pool:
  "activeWorkers s = int (length (inflight s)) \<Longrightarrow> activeWorkers s \<le> MAX_WORKERS \<Longrightarrow>
   activeWorkers (processQueue s) = int (length (inflight (processQueue s))) \<and>
   activeWorkers (processQueue s) \<le> MAX_WORKERS"
proof (induction s rule: processQueue.induct)
  case (1 s)
  show ?case
  proof (cases "activeWorkers s < MAX_WORKERS \<and> length (jobQueue s) > 0")
    case False
    have "processQueue s = s"
      by (subst processQueue.simps) (simp only: False if_False)
    then show ?thesis using "1.prems" by simp
  next
    case True
    then obtain j rest where q: "jobQueue s = j # rest" by (cases "jobQueue s") auto
    let ?s' = "s\<lparr>jobQueue := rest, activeWorkers := activeWorkers s + 1, inflight := inflight s @ [j]\<rparr>"
    have "activeWorkers (processQueue ?s') = int (length (inflight (processQueue ?s'))) \<and>
          activeWorkers (processQueue ?s') \<le> MAX_WORKERS"
      using True q "1.prems" by (intro "1.IH"(2)[of j rest]) auto
    moreover have "processQueue s = processQueue ?s'"
      using True q by (subst processQueue.simps) simp
    ultimately show ?thesis by simp
  qed
qed

lemma apply_event_pool:
  assumes a: "activeWorkers s = int (length (inflight s))" "activeWorkers s \<le> MAX_WORKERS"
  shows "activeWorkers (apply_event s ev) = int (length (inflight (apply_event s ev))) \<and>
   activeWorkers (apply_event s ev) \<le> MAX_WORKERS"
proof (cases ev)
  case (AddJobs js) then show ?thesis using a by simp
next
  case ProcessQueue
  then show ?thesis using processQueue_pool[of s] a by simp
next
  case (Settle j)
  show ?thesis
  proof (cases "j \<in> set (inflight s)")
    case True
    then have "length (inflight s) > 0" by (cases "inflight s") auto
    then have "int (length (inflight s) - Suc 0) = int (length (inflight s)) - 1" by linarith
    then show ?thesis using Settle True a by (simp add: length_remove1)
  next
    case False then show ?thesis using Settle a by simp
  qed
qed

lemma run_pool:
  "activeWorkers (run es) = int (length (inflight (run es))) \<and> activeWorkers (run es) \<le> MAX_WORKERS"
proof (induction es rule: rev_induct)
  case Nil show ?case by (simp add: run_def service0_def MAX_WORKERS_def)
next
  case (snoc ev es)
  then show ?case using apply_event_pool[of "run es" ev] by (simp add: run_def)
qed

text \<open>
  C1. After any sequence of \<open>addJobs\<close> calls, \<open>processQueue\<close> calls and settled
  jobs, \<open>activeWorkers\<close> is at most \<open>MAX_WORKERS\<close> = 30, and it is the number of
  jobs in flight: \<open>processQueue\<close> starts a job only while
  \<open>activeWorkers < MAX_WORKERS\<close>, and each settled job decrements the counter once.
\<close>

theorem activeWorkers_bounded:
  "activeWorkers (run es) \<le> MAX_WORKERS \<and> MAX_WORKERS = 30 \<and>
   activeWorkers (run es) = int (length (inflight (run es)))"
  using run_pool[of es] by (simp add: MAX_WORKERS_def)


section \<open>The worker pool: order of dequeuing\<close>




section \<open>Product validation\<close>

text \<open>
  C10. The validator returns true exactly when the product is neither null nor undefined,
  its \<open>image_urls\<close> field is an array, the array is not empty and its first element is
  a truthy string starting with \<open>http\<close>. A product whose first URL does not start with
  \<open>http\<close> is rejected whatever the later elements of \<open>image_urls\<close> are.
\<close>

theorem validateProductForGeneration_iff:
  "(validateProductForGeneration product = Inr True \<longleftrightarrow>
      product \<noteq> JNull \<and> product \<noteq> JUndefined \<and>
      (\<exists>urls. image_urls product = JArr urls \<and> urls \<noteq> [] \<and>
         (\<exists>s. hd urls = JStr s \<and> truthy (JStr s) \<and> startsWith s ''http''))) \<and>
   (\<forall>s rest. image_urls product = JArr (JStr s # rest) \<and> \<not> startsWith s ''http''
      \<longrightarrow> validateProductForGeneration product = Inr False)"
proof (intro conjI allI impI iffI)
  assume ok: "validateProductForGeneration product = Inr True"
  then have t: "truthy product"
    by (auto simp: validateProductForGeneration_def split: if_splits)
  from t show "product \<noteq> JNull" by auto
  from t show "product \<noteq> JUndefined" by auto
  from ok t show "\<exists>urls. image_urls product = JArr urls \<and> urls \<noteq> [] \<and>
         (\<exists>s. hd urls = JStr s \<and> truthy (JStr s) \<and> startsWith s ''http'')"
    by (auto simp: validateProductForGeneration_def split: if_splits jsval.splits list.splits)
next
  assume r: "product \<noteq> JNull \<and> product \<noteq> JUndefined \<and>
      (\<exists>urls. image_urls product = JArr urls \<and> urls \<noteq> [] \<and>
         (\<exists>s. hd urls = JStr s \<and> truthy (JStr s) \<and> startsWith s ''http''))"
  then obtain urls s where u: "image_urls product = JArr urls" "urls \<noteq> []"
      "hd urls = JStr s" "s \<noteq> []" "startsWith s ''http''"
    by auto
  from u(1) have "truthy product" by (cases product) auto
  moreover from u(2,3) obtain rest where "urls = JStr s # rest" by (cases urls) auto
  ultimately show "validateProductForGeneration product = Inr True"
    using u by (simp add: validateProductForGeneration_def)
next
  fix s rest
  assume a: "image_urls product = JArr (JStr s # rest) \<and> \<not> startsWith s ''http''"
  then have "truthy product" by (cases product) auto
  with a show "validateProductForGeneration product = Inr False"
    by (simp add: validateProductForGeneration_def)
qed

theorem validateProductForGeneration_iff_witness:
  "validateProductForGeneration
     (JObj [(''image_urls'', JArr [JStr ''ftp://cdn/a.jpg'', JStr ''http://cdn/b.jpg''])]) = Inr False
   \<and> validateProductForGeneration
     (JObj [(''name'', JStr ''Tee''), (''image_urls'', JArr [JStr ''https://cdn/a.jpg''])]) = Inr True"
  using validateProductForGeneration_iff
    [of "JObj [(''image_urls'', JArr [JStr ''ftp://cdn/a.jpg'', JStr ''http://cdn/b.jpg''])]"]
    validateProductForGeneration_iff
    [of "JObj [(''name'', JStr ''Tee''), (''image_urls'', JArr [JStr ''https://cdn/a.jpg''])]"]
  by (simp add: startsWith_def)

section \<open>Retries and their delays\<close>

lemma delays_shift:
  "d # map (\<lambda>k. 1000 * (c + 1 + int k)) [0..<m] = map (\<lambda>k. 1000 * (c + int k)) [0..<Suc m]"
  if "d = 1000 * c" for c :: int
proof -
  have "map (\<lambda>k. 1000 * (c + int k)) [0..<Suc m]
        = (1000 * (c + int 0)) # map ((\<lambda>k. 1000 * (c + int k)) \<circ> Suc) [0..<m]"
    by (simp only: map_upt_Suc comp_def)
  also have "((\<lambda>k. 1000 * (c + int k)) \<circ> Suc) = (\<lambda>k. 1000 * (c + 1 + int k))"
    by (auto simp: fun_eq_iff)
  finally show ?thesis using that by simp
qed

lemma retry_rork:
  "retryWithBackoff (rorkRequest e u p) r w = (res, w') \<Longrightarrow>
   \<exists>n. 1 \<le> n \<and> n \<le> Suc r \<and>
       w' = w\<lparr>apiCalls := apiCalls w + n,
              sleeps := sleeps w @ map (\<lambda>k. 1000 * (4 - int r + int k)) [0..<n - 1]\<rparr> \<and>
       res = rork e (apiCalls w + n - 1) u p \<and>
       (\<forall>i<n - 1. isl (rork e (apiCalls w + i) u p)) \<and>
       (isl res \<longrightarrow> n = Suc r)"
proof (induction r arbitrary: w res w')
  case 0
  have "rorkRequest e u p w = (rork e (apiCalls w) u p, w\<lparr>apiCalls := Suc (apiCalls w)\<rparr>)"
    by (simp add: rorkRequest_def)
  then have "res = rork e (apiCalls w) u p" "w' = w\<lparr>apiCalls := Suc (apiCalls w)\<rparr>"
    using 0 by auto
  then show ?case
    by (intro exI[of _ 1]) simp
next
  case (Suc r)
  show ?case
  proof (cases "rork e (apiCalls w) u p")
    case (Inr v)
    then have "rorkRequest e u p w = (Inr v, w\<lparr>apiCalls := Suc (apiCalls w)\<rparr>)"
      by (simp add: rorkRequest_def)
    then have "res = Inr v" "w' = w\<lparr>apiCalls := Suc (apiCalls w)\<rparr>"
      using Suc.prems by auto
    then show ?thesis using Inr
      by (intro exI[of _ 1]) simp
  next
    case (Inl err)
    let ?w1 = "w\<lparr>apiCalls := Suc (apiCalls w), sleeps := sleeps w @ [1000 * (4 - int (Suc r))]\<rparr>"
    have "rorkRequest e u p w = (Inl err, w\<lparr>apiCalls := Suc (apiCalls w)\<rparr>)"
      using Inl by (simp add: rorkRequest_def)
    then have "retryWithBackoff (rorkRequest e u p) r ?w1 = (res, w')"
      using Suc.prems by simp
    from Suc.IH[OF this] obtain n where n: "1 \<le> n" "n \<le> Suc r"
      "w' = ?w1\<lparr>apiCalls := apiCalls ?w1 + n,
              sleeps := sleeps ?w1 @ map (\<lambda>k. 1000 * (4 - int r + int k)) [0..<n - 1]\<rparr>"
      "res = rork e (apiCalls ?w1 + n - 1) u p"
      "\<forall>i<n - 1. isl (rork e (apiCalls ?w1 + i) u p)"
      "isl res \<longrightarrow> n = Suc r"
      by blast
    have sl: "[1000 * (4 - int (Suc r))] @ map (\<lambda>k. 1000 * (4 - int r + int k)) [0..<n - 1]
        = map (\<lambda>k. 1000 * (4 - int (Suc r) + int k)) [0..<Suc n - 1]"
      using delays_shift[of "1000 * (4 - int (Suc r))" "4 - int (Suc r)" "n - 1"] n(1)
      by (simp add: algebra_simps)
    have all: "\<forall>i<Suc n - 1. isl (rork e (apiCalls w + i) u p)"
    proof (intro allI impI)
      fix i assume i: "i < Suc n - 1"
      show "isl (rork e (apiCalls w + i) u p)"
      proof (cases i)
        case 0 then show ?thesis using Inl by simp
      next
        case (Suc i')
        then have "i' < n - 1" using i by simp
        with n(5) have "isl (rork e (apiCalls ?w1 + i') u p)" by blast
        then show ?thesis using Suc by simp
      qed
    qed
    show ?thesis
    proof (intro exI[of _ "Suc n"] conjI)
      show "1 \<le> Suc n" by simp
      show "Suc n \<le> Suc (Suc r)" using n(2) by simp
      show "w' = w\<lparr>apiCalls := apiCalls w + Suc n,
              sleeps := sleeps w @ map (\<lambda>k. 1000 * (4 - int (Suc r) + int k)) [0..<Suc n - 1]\<rparr>"
        unfolding n(3) sl[symmetric] by simp
      show "res = rork e (apiCalls w + Suc n - 1) u p" using n(4) n(1) by simp
      show "\<forall>i<Suc n - 1. isl (rork e (apiCalls w + i) u p)" by (rule all)
      show "isl res \<longrightarrow> Suc n = Suc (Suc r)" using n(6) by simp
    qed
  qed
qed



lemma upt_from_1: "1 \<le> n \<Longrightarrow> map (\<lambda>k. 1000 * (1 + int k)) [0..<n - 1] = map (\<lambda>k. 1000 * int k) [1..<n]"
proof -
  assume n: "1 \<le> n"
  then obtain m where m: "n = Suc m" by (cases n) auto
  have "[1..<Suc m] = map Suc [0..<m]" by (simp only: map_Suc_upt One_nat_def)
  then show ?thesis unfolding m by (simp add: comp_def)
qed
text \<open>
  C7, as the code has it. The generation request is retried at most \<open>MAX_RETRIES\<close> = 3
  times, so it is made \<open>n\<close> times with \<open>n\<close> between 1 and 4; the delay slept
  before retry \<open>k\<close> is \<open>1000 * k\<close> milliseconds (1000, 2000, 3000): it grows
  linearly. Every request before the last one failed, the result is that of the last
  request, and an error is returned only after all 4 requests failed.
\<close>

theorem retryWithBackoff_linear_delays:
  "\<exists>n. 1 \<le> n \<and> n \<le> 1 + MAX_RETRIES \<and> MAX_RETRIES = 3 \<and>
       snd (retryWithBackoff (rorkRequest e u p) MAX_RETRIES w) =
         w\<lparr>apiCalls := apiCalls w + n,
           sleeps := sleeps w @ map (\<lambda>k. 1000 * int k) [1..<n]\<rparr> \<and>
       fst (retryWithBackoff (rorkRequest e u p) MAX_RETRIES w) = rork e (apiCalls w + n - 1) u p \<and>
       (\<forall>i<n - 1. isl (rork e (apiCalls w + i) u p)) \<and>
       (isl (fst (retryWithBackoff (rorkRequest e u p) MAX_RETRIES w)) \<longrightarrow> n = 1 + MAX_RETRIES)"
proof -
  obtain res w' where R: "retryWithBackoff (rorkRequest e u p) MAX_RETRIES w = (res, w')"
    by (cases "retryWithBackoff (rorkRequest e u p) MAX_RETRIES w")
  from retry_rork[OF R] obtain n where n: "1 \<le> n" "n \<le> Suc MAX_RETRIES"
       "w' = w\<lparr>apiCalls := apiCalls w + n,
              sleeps := sleeps w @ map (\<lambda>k. 1000 * (4 - int MAX_RETRIES + int k)) [0..<n - 1]\<rparr>"
       "res = rork e (apiCalls w + n - 1) u p"
       "\<forall>i<n - 1. isl (rork e (apiCalls w + i) u p)"
       "isl res \<longrightarrow> n = Suc MAX_RETRIES"
    by blast
  have "map (\<lambda>k. 1000 * (4 - int MAX_RETRIES + int k)) [0..<n - 1] = map (\<lambda>k. 1000 * int k) [1..<n]"
    using upt_from_1[OF n(1)] by (simp add: MAX_RETRIES_def)
  then have w': "w' = w\<lparr>apiCalls := apiCalls w + n,
              sleeps := sleeps w @ map (\<lambda>k. 1000 * int k) [1..<n]\<rparr>"
    using n(3) by simp
  have "n \<le> 1 + MAX_RETRIES" "MAX_RETRIES = 3" "isl res \<longrightarrow> n = 1 + MAX_RETRIES"
    using n(2,6) by (simp_all add: MAX_RETRIES_def)
  with n(1,4,5) w' show ?thesis unfolding R fst_conv snd_conv
    by (intro exI[of _ n]) blast
qed


theorem retryWithBackoff_linear_delays_witness:
  "isl (fst (retryWithBackoff (rorkRequest env_failing ''me'' ''dGVl'') MAX_RETRIES world0)) \<and>
   snd (retryWithBackoff (rorkRequest env_failing ''me'' ''dGVl'') MAX_RETRIES world0) =
     world0\<lparr>apiCalls := 4, sleeps := [1000, 2000, 3000]\<rparr>"
proof -
  have f: "isl (fst (retryWithBackoff (rorkRequest env_failing ''me'' ''dGVl'') MAX_RETRIES world0))"
    by code_simp
  from retryWithBackoff_linear_delays[of env_failing "''me''" "''dGVl''" world0] f
  obtain n where "n = 1 + MAX_RETRIES"
    "snd (retryWithBackoff (rorkRequest env_failing ''me'' ''dGVl'') MAX_RETRIES world0) =
         world0\<lparr>apiCalls := apiCalls world0 + n,
           sleeps := sleeps world0 @ map (\<lambda>k. 1000 * int k) [1..<n]\<rparr>"
    by blast
  then have "snd (retryWithBackoff (rorkRequest env_failing ''me'' ''dGVl'') MAX_RETRIES world0) =
         world0\<lparr>apiCalls := apiCalls world0 + 4,
           sleeps := sleeps world0 @ map (\<lambda>k. 1000 * int k) [1..<4]\<rparr>"
    by (simp add: MAX_RETRIES_def)
  moreover have "[1..<4] = [1, 2, 3::nat]" by code_simp
  ultimately show ?thesis using f by (simp add: world0_def)
qed



text \<open>
  C7 as stated fails. When every request fails the delays are 1000, 2000 and 3000 ms:
  they grow by a constant difference, not by a constant factor.
\<close>

theorem exponential_backoff_counterexample:
  "sleeps (snd (retryWithBackoff (rorkRequest env_failing ''me'' ''dGVl'') MAX_RETRIES world0))
     = [1000, 2000, 3000] \<and>
   \<not> exponential_delays
        (sleeps (snd (retryWithBackoff (rorkRequest env_failing ''me'' ''dGVl'') MAX_RETRIES world0)))"
  by code_simp

section \<open>One job from first request to cached result\<close>

lemma validate_TrueD:
  "validateProductForGeneration product = Inr True \<Longrightarrow>
   \<exists>url rest. image_urls product = JArr (JStr url # rest) \<and> startsWith url ''http''"
  by (auto simp: validateProductForGeneration_def split: if_splits jsval.splits list.splits)

lemma validate_TrueI:
  "image_urls product = JArr (JStr url # rest) \<Longrightarrow> startsWith url ''http'' \<Longrightarrow>
   validateProductForGeneration product = Inr True"
proof -
  assume a: "image_urls product = JArr (JStr url # rest)" and h: "startsWith url ''http''"
  from a have "truthy product" by (cases product) auto
  moreover from h have "url \<noteq> []" by (auto simp: startsWith_def)
  ultimately show ?thesis using a h by (simp add: validateProductForGeneration_def)
qed

lemma validate_empty:
  "image_urls product = JArr [] \<Longrightarrow> validateProductForGeneration product = Inr False"
  by (simp add: validateProductForGeneration_def)

lemma generate_valid:
  assumes "image_urls product = JArr (JStr url # rest)" "startsWith url ''http''"
    and "productImage e (imageFetches w) url = Inr img"
  shows "generateVirtualTryOn e u product w =
           retryWithBackoff (rorkRequest e u img) MAX_RETRIES (w\<lparr>imageFetches := Suc (imageFetches w)\<rparr>)"
  using assms validate_TrueI[OF assms(1,2)]
  by (simp add: generateVirtualTryOn_def fetchProductImage_def)

lemma retry_twice_then_success:
  assumes "rork e (apiCalls w) u img = Inl e1" "rork e (Suc (apiCalls w)) u img = Inl e2"
    "rork e (Suc (Suc (apiCalls w))) u img = Inr g"
  shows "retryWithBackoff (rorkRequest e u img) MAX_RETRIES w =
          (Inr g, w\<lparr>apiCalls := apiCalls w + 3, sleeps := sleeps w @ [1000, 2000]\<rparr>)"
proof -
  have r: "\<And>v. rorkRequest e u img v = (rork e (apiCalls v) u img, v\<lparr>apiCalls := Suc (apiCalls v)\<rparr>)"
    by (simp add: rorkRequest_def)
  have m: "MAX_RETRIES = Suc (Suc (Suc 0))" by (simp add: MAX_RETRIES_def)
  show ?thesis unfolding m by (simp add: r assms)
qed

lemma first_request_success:
  assumes "catalog e (catalogCalls w) = Inr product"
    and "image_urls product = JArr (JStr url # rest)" and "startsWith url ''http''"
    and "productImage e (imageFetches w) url = Inr img"
    and "rork e (apiCalls w) u img = Inr g"
  shows "processJob e j u w =
          (Inr (),
           w\<lparr>catalogCalls := Suc (catalogCalls w), imageFetches := Suc (imageFetches w),
             apiCalls := apiCalls w + 1,
             imageCache := (imageCache w)(position j \<mapsto>
               \<lparr>entry_id = job_id j, entry_imageUrl = g, entry_product = product,
                entry_position = position j\<rparr>)\<rparr>)"
proof -
  let ?w1 = "w\<lparr>catalogCalls := Suc (catalogCalls w)\<rparr>"
  let ?w2 = "?w1\<lparr>imageFetches := Suc (imageFetches ?w1)\<rparr>"
  have r: "\<And>v. rorkRequest e u img v = (rork e (apiCalls v) u img, v\<lparr>apiCalls := Suc (apiCalls v)\<rparr>)"
    by (simp add: rorkRequest_def)
  have m: "MAX_RETRIES = Suc (Suc (Suc 0))" by (simp add: MAX_RETRIES_def)
  have "retryWithBackoff (rorkRequest e u img) MAX_RETRIES ?w2 =
          (Inr g, ?w2\<lparr>apiCalls := apiCalls ?w2 + 1\<rparr>)"
    unfolding m by (simp add: r assms(5))
  then have g: "generateVirtualTryOn e u product ?w1 = (Inr g, ?w2\<lparr>apiCalls := apiCalls ?w2 + 1\<rparr>)"
    using generate_valid[of product url rest e ?w1 img u] assms(2-4) by simp
  show ?thesis
    using assms(1) g by (simp add: processJob_def tryGenerate_def fetchProduct_def)
qed

text \<open>
  C8, as the code has it. A job whose product is valid, whose product image downloads
  and whose generation request fails twice and then succeeds on the third attempt ends
  with its position cached, the entry holding the job's id, the generated image, the
  product and the position, after exactly three requests (and sleeps of 1000 and 2000
  ms). No attempt number is recorded: a job is \<open>{id, position}\<close>, the cache entry has
  no attempt field, and what is cached is what a run whose first request succeeds
  caches, after one request.
\<close>

theorem retry_then_success:
  assumes "catalog e (catalogCalls w) = Inr product"
    and "image_urls product = JArr (JStr url # rest)" and "startsWith url ''http''"
    and "productImage e (imageFetches w) url = Inr img"
    and "rork e (apiCalls w) u img = Inl e1" and "rork e (Suc (apiCalls w)) u img = Inl e2"
    and "rork e (Suc (Suc (apiCalls w))) u img = Inr g"
  shows "processJob e j u w =
          (Inr (),
           w\<lparr>catalogCalls := Suc (catalogCalls w), imageFetches := Suc (imageFetches w),
             apiCalls := apiCalls w + 3, sleeps := sleeps w @ [1000, 2000],
             imageCache := (imageCache w)(position j \<mapsto>
               \<lparr>entry_id = job_id j, entry_imageUrl = g, entry_product = product,
                entry_position = position j\<rparr>)\<rparr>) \<and>
         apiCalls (snd (processJob (e\<lparr>rork := (\<lambda>n a b. Inr g)\<rparr>) j u w)) = apiCalls w + 1 \<and>
         imageCache (snd (processJob (e\<lparr>rork := (\<lambda>n a b. Inr g)\<rparr>) j u w)) =
           imageCache (snd (processJob e j u w))"
proof -
  let ?w1 = "w\<lparr>catalogCalls := Suc (catalogCalls w)\<rparr>"
  let ?w2 = "?w1\<lparr>imageFetches := Suc (imageFetches ?w1)\<rparr>"
  have g: "generateVirtualTryOn e u product ?w1 =
      (Inr g, ?w2\<lparr>apiCalls := apiCalls ?w2 + 3, sleeps := sleeps ?w2 @ [1000, 2000]\<rparr>)"
    using generate_valid[of product url rest e ?w1 img u] assms(2-4)
      retry_twice_then_success[of e ?w2 u img e1 e2 g] assms(5-7)
    by simp
  have third: "processJob e j u w =
          (Inr (),
           w\<lparr>catalogCalls := Suc (catalogCalls w), imageFetches := Suc (imageFetches w),
             apiCalls := apiCalls w + 3, sleeps := sleeps w @ [1000, 2000],
             imageCache := (imageCache w)(position j \<mapsto>
               \<lparr>entry_id = job_id j, entry_imageUrl = g, entry_product = product,
                entry_position = position j\<rparr>)\<rparr>)"
    using assms(1) g by (simp add: processJob_def tryGenerate_def fetchProduct_def)
  have first: "processJob (e\<lparr>rork := (\<lambda>n a b. Inr g)\<rparr>) j u w =
          (Inr (),
           w\<lparr>catalogCalls := Suc (catalogCalls w), imageFetches := Suc (imageFetches w),
             apiCalls := apiCalls w + 1,
             imageCache := (imageCache w)(position j \<mapsto>
               \<lparr>entry_id = job_id j, entry_imageUrl = g, entry_product = product,
                entry_position = position j\<rparr>)\<rparr>)"
    using assms(1-4)
    by (intro first_request_success[of _ w product url rest img u g j]) simp_all
  show ?thesis unfolding third first by simp
qed

theorem retry_then_success_witness:
  "processJob env_third_time (job_at 7) ''me'' world0 =
     (Inr (),
      world0\<lparr>catalogCalls := 1, imageFetches := 1, apiCalls := 3, sleeps := [1000, 2000],
        imageCache := [7 \<mapsto> \<lparr>entry_id = job_id (job_at 7),
           entry_imageUrl = ''data:image/jpeg;base64,bG9vaw=='', entry_product = tee,
           entry_position = 7\<rparr>]\<rparr>)"
proof -
  have "processJob env_third_time (job_at 7) ''me'' world0 =
          (Inr (),
           world0\<lparr>catalogCalls := Suc (catalogCalls world0), imageFetches := Suc (imageFetches world0),
             apiCalls := apiCalls world0 + 3, sleeps := sleeps world0 @ [1000, 2000],
             imageCache := (imageCache world0)(position (job_at 7) \<mapsto>
               \<lparr>entry_id = job_id (job_at 7), entry_imageUrl = ''data:image/jpeg;base64,bG9vaw=='',
                entry_product = tee, entry_position = position (job_at 7)\<rparr>)\<rparr>)"
    using retry_then_success[of env_third_time world0 tee "''https://cdn.example/tee.jpg''" "[]"
        "''dGVl''" "''me''" "Error ''API error: 503''" "Error ''API error: 503''"
        "''data:image/jpeg;base64,bG9vaw==''" "job_at 7"]
    by (simp add: env_third_time_def world0_def tee_def startsWith_def)
  then show ?thesis by (simp add: world0_def job_at_def)
qed

text \<open>
  C8 as stated fails. The generation fails twice and succeeds on the third attempt:
  the position is cached after 3 requests. A run whose first request succeeds caches
  the same entry after 1 request. So the entry stored for the position records no
  attempt: nothing read off it is 3 after the first run and 1 after the second.
\<close>

theorem recorded_attempt_counterexample:
  "fst (processJob env_third_time (job_at 7) ''me'' world0) = Inr () \<and>
   apiCalls (snd (processJob env_third_time (job_at 7) ''me'' world0)) = 3 \<and>
   apiCalls (snd (processJob env_first_time (job_at 7) ''me'' world0)) = 1 \<and>
   imageCache (snd (processJob env_third_time (job_at 7) ''me'' world0)) 7 =
     Some \<lparr>entry_id = job_id (job_at 7), entry_imageUrl = ''data:image/jpeg;base64,bG9vaw=='',
           entry_product = tee, entry_position = 7\<rparr> \<and>
   imageCache (snd (processJob env_first_time (job_at 7) ''me'' world0)) 7 =
     imageCache (snd (processJob env_third_time (job_at 7) ''me'' world0)) 7 \<and>
   \<not> (\<exists>recorded :: cache_entry option \<Rightarrow> nat.
        recorded (imageCache (snd (processJob env_third_time (job_at 7) ''me'' world0)) 7) = 3 \<and>
        recorded (imageCache (snd (processJob env_first_time (job_at 7) ''me'' world0)) 7) = 1)"
proof -
  have a: "fst (processJob env_third_time (job_at 7) ''me'' world0) = Inr ()"
    by code_simp
  have b: "apiCalls (snd (processJob env_third_time (job_at 7) ''me'' world0)) = 3"
    by code_simp
  have c: "apiCalls (snd (processJob env_first_time (job_at 7) ''me'' world0)) = 1"
    by code_simp
  have d: "imageCache (snd (processJob env_third_time (job_at 7) ''me'' world0)) 7 =
     Some \<lparr>entry_id = job_id (job_at 7), entry_imageUrl = ''data:image/jpeg;base64,bG9vaw=='',
           entry_product = tee, entry_position = 7\<rparr>"
    by code_simp
  have e: "imageCache (snd (processJob env_first_time (job_at 7) ''me'' world0)) 7 =
     imageCache (snd (processJob env_third_time (job_at 7) ''me'' world0)) 7"
    by code_simp
  have f: "\<not> (\<exists>recorded :: cache_entry option \<Rightarrow> nat.
        recorded (imageCache (snd (processJob env_third_time (job_at 7) ''me'' world0)) 7) = 3 \<and>
        recorded (imageCache (snd (processJob env_first_time (job_at 7) ''me'' world0)) 7) = 1)"
    unfolding e by simp
  from a b c d e f show ?thesis by blast
qed

text \<open>
  C9. When the fetched product has an empty \<open>image_urls\<close>, the \<open>try\<close> block
  fails with the validation error before anything is downloaded or requested, and
  \<open>processJob\<close> fetches a different product once. No generation request is made, no
  retry is taken and no delay is slept; nothing is cached. The world of a job holds no
  failure counter that could change.
\<close>

theorem empty_image_urls_substitution:
  assumes "catalog e (catalogCalls w) = Inr product" and "image_urls product = JArr []"
  shows "fst (tryGenerate e j u w) = Inl (Error ''Product validation failed'') \<and>
         snd (processJob e j u w) =
           w\<lparr>catalogCalls := Suc (catalogCalls w), differentCalls := Suc (differentCalls w)\<rparr> \<and>
         apiCalls (snd (processJob e j u w)) = apiCalls w \<and>
         imageFetches (snd (processJob e j u w)) = imageFetches w \<and>
         sleeps (snd (processJob e j u w)) = sleeps w \<and>
         retries_taken w (snd (processJob e j u w)) = 0 \<and>
         imageCache (snd (processJob e j u w)) = imageCache w"
proof -
  have g: "\<And>v. generateVirtualTryOn e u product v = (Inl (Error ''Product validation failed''), v)"
    using validate_empty[OF assms(2)] by (simp add: generateVirtualTryOn_def)
  have t: "tryGenerate e j u w =
        (Inl (Error ''Product validation failed''), w\<lparr>catalogCalls := Suc (catalogCalls w)\<rparr>)"
    using assms(1) by (simp add: tryGenerate_def fetchProduct_def g)
  have p: "snd (processJob e j u w) =
           w\<lparr>catalogCalls := Suc (catalogCalls w), differentCalls := Suc (differentCalls w)\<rparr>"
    by (simp add: processJob_def t fetchDifferentProduct_def split: sum.splits)
  show ?thesis unfolding p by (simp add: t retries_taken_def)
qed

theorem empty_image_urls_substitution_witness:
  "fst (tryGenerate env_bare (job_at 7) ''me'' world0) = Inl (Error ''Product validation failed'') \<and>
   snd (processJob env_bare (job_at 7) ''me'' world0) = world0\<lparr>catalogCalls := 1, differentCalls := 1\<rparr>"
  using empty_image_urls_substitution[of env_bare world0 bare "job_at 7" "''me''"]
  by (simp add: env_bare_def bare_def world0_def)

section \<open>Jobs after failures\<close>

lemma processJob_calls:
  assumes "catalog e (catalogCalls w) = Inr product"
    and "validateProductForGeneration product = Inr True"
    and "\<And>url. \<not> isl (productImage e (imageFetches w) url)"
  shows "apiCalls w < apiCalls (snd (processJob e j u w)) \<and>
         apiCalls (snd (processJob e j u w)) \<le> apiCalls w + 4 \<and>
         ((\<forall>n img. isl (rork e n u img)) \<longrightarrow> apiCalls (snd (processJob e j u w)) = apiCalls w + 4)"
proof -
  from validate_TrueD[OF assms(2)] obtain url rest where
    u: "image_urls product = JArr (JStr url # rest)" "startsWith url ''http''" by blast
  from assms(3)[of url] obtain img where i: "productImage e (imageFetches w) url = Inr img"
    by (cases "productImage e (imageFetches w) url") auto
  let ?w1 = "w\<lparr>catalogCalls := Suc (catalogCalls w)\<rparr>"
  let ?w2 = "?w1\<lparr>imageFetches := Suc (imageFetches ?w1)\<rparr>"
  obtain res w3 where R: "retryWithBackoff (rorkRequest e u img) MAX_RETRIES ?w2 = (res, w3)"
    by (cases "retryWithBackoff (rorkRequest e u img) MAX_RETRIES ?w2")
  from retry_rork[OF R] obtain n where n0: "1 \<le> n" "n \<le> Suc MAX_RETRIES"
      "w3 = ?w2\<lparr>apiCalls := apiCalls ?w2 + n,
              sleeps := sleeps ?w2 @ map (\<lambda>k. 1000 * (4 - int MAX_RETRIES + int k)) [0..<n - 1]\<rparr>"
      "res = rork e (apiCalls ?w2 + n - 1) u img"
      "isl res \<longrightarrow> n = Suc MAX_RETRIES"
    by blast
  have "apiCalls w3 = apiCalls w + n" unfolding n0(3) by simp
  note n = n0(1,2) this n0(4,5)
  have g: "generateVirtualTryOn e u product ?w1 = (res, w3)"
    using generate_valid[of product url rest e ?w1 img u] u i R by simp
  have f: "fetchProduct e w = (Inr product, ?w1)"
    using assms(1) by (simp add: fetchProduct_def)
  have a: "apiCalls (snd (processJob e j u w)) = apiCalls w3"
  proof (cases res)
    case (Inr image)
    then have "tryGenerate e j u w =
        (Inr (), w3\<lparr>imageCache := (imageCache w3)(position j \<mapsto>
                      \<lparr>entry_id = job_id j, entry_imageUrl = image,
                       entry_product = product, entry_position = position j\<rparr>)\<rparr>)"
      by (simp add: tryGenerate_def f g)
    then show ?thesis by (simp add: processJob_def)
  next
    case (Inl err)
    then have t: "tryGenerate e j u w = (Inl err, w3)"
      by (simp add: tryGenerate_def f g)
    show ?thesis
      by (cases "different e (differentCalls w3)")
         (simp_all add: processJob_def t fetchDifferentProduct_def)
  qed
  have "n = 4" if "\<forall>n img. isl (rork e n u img)"
  proof -
    from that n(4) have "isl res" by simp
    with n(5) show ?thesis by (simp add: MAX_RETRIES_def)
  qed
  moreover have "n \<le> 4" using n(2) by (simp add: MAX_RETRIES_def)
  ultimately show ?thesis using a n(1,3) by auto
qed


lemma processJobs_all_fail:
  assumes "\<And>n. \<exists>product. catalog e n = Inr product \<and> validateProductForGeneration product = Inr True"
    and "\<And>n url. \<not> isl (productImage e n url)"
    and "\<forall>n img. isl (rork e n u img)"
  shows "apiCalls (processJobs e u js w) = apiCalls w + 4 * length js"
proof (induction js arbitrary: w)
  case Nil show ?case by simp
next
  case (Cons j js)
  from assms(1)[of "catalogCalls w"] obtain product where
    p: "catalog e (catalogCalls w) = Inr product" "validateProductForGeneration product = Inr True"
    by blast
  have "apiCalls (snd (processJob e j u w)) = apiCalls w + 4"
    using processJob_calls[OF p assms(2), of j u] assms(3) by blast
  then show ?case using Cons.IH[of "snd (processJob e j u w)"] by simp
qed

text \<open>
  C3, as the code has it. \<open>processJob\<close> consults no circuit breaker. Whenever the
  catalog yields valid products and their images download, a job makes at least one
  and at most 4 generation requests, whatever happened before it; and when every
  generation request fails, any number of jobs in a row make 4 requests each: none is
  answered without a request.
\<close>

theorem no_circuit_breaker:
  assumes "\<And>n. \<exists>product. catalog e n = Inr product \<and> validateProductForGeneration product = Inr True"
    and "\<And>n url. \<not> isl (productImage e n url)"
  shows "apiCalls w < apiCalls (snd (processJob e j u w)) \<and>
         apiCalls (snd (processJob e j u w)) \<le> apiCalls w + 4 \<and>
         ((\<forall>n img. isl (rork e n u img)) \<longrightarrow>
            apiCalls (processJobs e u js w) = apiCalls w + 4 * length js)"
proof -
  from assms(1)[of "catalogCalls w"] obtain product where
    p: "catalog e (catalogCalls w) = Inr product" "validateProductForGeneration product = Inr True"
    by blast
  show ?thesis
    using processJob_calls[OF p assms(2), of j u] processJobs_all_fail[OF assms, of u js w]
    by blast
qed

theorem no_circuit_breaker_witness:
  "apiCalls world0 < apiCalls (snd (processJob env_failing (job_at 0) ''me'' world0)) \<and>
   apiCalls (processJobs env_failing ''me'' [job_at 0, job_at 1] world0) = 8"
proof -
  have v: "validateProductForGeneration tee = Inr True" by code_simp
  have a: "\<And>n. \<exists>product. catalog env_failing n = Inr product \<and>
            validateProductForGeneration product = Inr True"
    using v by (simp add: env_failing_def)
  have b: "\<And>n url. \<not> isl (productImage env_failing n url)"
    by (simp add: env_failing_def)
  have c: "\<forall>n img. isl (rork env_failing n ''me'' img)"
    by (simp add: env_failing_def)
  from no_circuit_breaker[OF a b, of world0 "job_at 0" "''me''" "[job_at 0, job_at 1]"] c
  show ?thesis by (simp add: world0_def)
qed

text \<open>
  C3 as stated fails. Five jobs in a row fail, with 20 failed generation requests
  between them. The sixth job, run right after them, still makes 4 requests, and its
  error is the endpoint's, not one of an open circuit.
\<close>

theorem circuit_breaker_counterexample:
  "apiCalls (processJobs env_failing ''me'' (map job_at [0..<5]) world0) = 20 \<and>
   fst (tryGenerate env_failing (job_at 5) ''me''
          (processJobs env_failing ''me'' (map job_at [0..<5]) world0))
     = Inl (Error ''API error: 500'') \<and>
   apiCalls (snd (processJob env_failing (job_at 5) ''me''
          (processJobs env_failing ''me'' (map job_at [0..<5]) world0))) = 24"
  by code_simp


section \<open>The worker pool: one job per position\<close>













section \<open>The window of the specification\<close>

lemma ensure_fold:
  "distinct ps \<Longrightarrow>
   cache (foldl (ensure_position r) sch ps) =
     (\<lambda>q. if q \<in> set ps \<and> wants_job r (cache sch q) then Some Pending else cache sch q) \<and>
   queue (foldl (ensure_position r) sch ps) =
     queue sch @ map (\<lambda>p. \<lparr>sjob_position = p, attempt = 0\<rparr>)
                    (filter (\<lambda>p. wants_job r (cache sch p)) ps) \<and>
   window (foldl (ensure_position r) sch ps) = window sch"
proof (induction ps arbitrary: sch)
  case Nil
  show ?case by simp
next
  case (Cons p ps)
  let ?s = "ensure_position r sch p"
  have d: "distinct ps" "p \<notin> set ps" using Cons.prems by auto
  have c: "\<And>q. q \<noteq> p \<Longrightarrow> cache ?s q = cache sch q"
    by (simp add: ensure_position_def)
  have cp: "cache ?s p = (if wants_job r (cache sch p) then Some Pending else cache sch p)"
    by (simp add: ensure_position_def)
  have q: "queue ?s = queue sch @ (if wants_job r (cache sch p)
              then [\<lparr>sjob_position = p, attempt = 0\<rparr>] else [])"
    by (simp add: ensure_position_def)
  have w: "window ?s = window sch" by (simp add: ensure_position_def)
  have f: "filter (\<lambda>p. wants_job r (cache ?s p)) ps = filter (\<lambda>p. wants_job r (cache sch p)) ps"
  proof (intro filter_cong refl)
    fix x assume "x \<in> set ps"
    then have "x \<noteq> p" using d(2) by auto
    then show "wants_job r (cache ?s x) = wants_job r (cache sch x)" using c by simp
  qed
  from Cons.IH[OF d(1), of ?s] have ih:
    "cache (foldl (ensure_position r) ?s ps) =
       (\<lambda>q. if q \<in> set ps \<and> wants_job r (cache ?s q) then Some Pending else cache ?s q)"
    "queue (foldl (ensure_position r) ?s ps) =
       queue ?s @ map (\<lambda>p. \<lparr>sjob_position = p, attempt = 0\<rparr>)
                    (filter (\<lambda>p. wants_job r (cache ?s p)) ps)"
    "window (foldl (ensure_position r) ?s ps) = window ?s"
    by blast+
  have 1: "cache (foldl (ensure_position r) sch (p # ps)) =
     (\<lambda>q. if q \<in> set (p # ps) \<and> wants_job r (cache sch q) then Some Pending else cache sch q)"
  proof
    fix q
    show "cache (foldl (ensure_position r) sch (p # ps)) q =
      (if q \<in> set (p # ps) \<and> wants_job r (cache sch q) then Some Pending else cache sch q)"
    proof (cases "q = p")
      case True
      then show ?thesis using d(2) cp by (simp add: ih(1))
    next
      case False
      then show ?thesis using c[OF False] by (simp add: ih(1))
    qed
  qed
  have 2: "queue (foldl (ensure_position r) sch (p # ps)) =
     queue sch @ map (\<lambda>p. \<lparr>sjob_position = p, attempt = 0\<rparr>)
                    (filter (\<lambda>p. wants_job r (cache sch p)) (p # ps))"
    by (simp add: ih(2) f q)
  have 3: "window (foldl (ensure_position r) sch (p # ps)) = window sch"
    by (simp add: ih(3) w)
  from 1 2 3 show ?case by blast
qed

lemma wants_after:
  "wants_job r (if P \<and> wants_job r c then Some Pending else c) = (\<not> P \<and> wants_job r c)"
  by (cases "wants_job r c") auto

text \<open>
  C4. \<open>EnsureWindow(c, s)\<close> called twice in succession: the second call changes
  nothing, so jobs are enqueued only by the first call. The first call enqueues, in
  ascending order and once each, a job at attempt 0 for exactly the positions of
  \<open>[c, c + s)\<close> that were absent or failed with a retryable reason; a position that
  was \<open>Ready\<close>, \<open>Claimed\<close> or \<open>Pending\<close> (already enqueued) gets no job.
\<close>

theorem EnsureWindow_idempotent:
  "EnsureWindow r c s (EnsureWindow r c s sch) = EnsureWindow r c s sch \<and>
   queue (EnsureWindow r c s (EnsureWindow r c s sch)) = queue (EnsureWindow r c s sch) \<and>
   queue (EnsureWindow r c s sch) =
     queue sch @ map (\<lambda>p. \<lparr>sjob_position = p, attempt = 0\<rparr>)
                    (filter (\<lambda>p. wants_job r (cache sch p)) [c..<c + s])"
proof -
  let ?ps = "[c..<c + s]"
  let ?f = "foldl (ensure_position r) sch ?ps"
  note a = ensure_fold[of ?ps r sch, simplified]
  have nw: "filter (\<lambda>p. wants_job r (cache ?f p)) ?ps = []"
  proof -
    have "\<And>p. p \<in> set ?ps \<Longrightarrow> \<not> wants_job r (cache ?f p)"
      using a by (simp add: wants_after)
    then show ?thesis by (simp add: filter_empty_conv)
  qed
  let ?g = "foldl (ensure_position r) (?f\<lparr>window := (c, s)\<rparr>) ?ps"
  note b = ensure_fold[of ?ps r "?f\<lparr>window := (c, s)\<rparr>", simplified]
  have cg: "cache ?g = cache ?f"
  proof
    fix q show "cache ?g q = cache ?f q"
      using b a by (simp add: wants_after)
  qed
  have qg: "queue ?g = queue ?f" using b nw by simp
  have wg: "window ?g = (c, s)" using b by simp
  have eq: "?g\<lparr>window := (c, s)\<rparr> = ?f\<lparr>window := (c, s)\<rparr>"
    using cg qg by (intro scheduler.equality) simp_all
  have 1: "EnsureWindow r c s (EnsureWindow r c s sch) = EnsureWindow r c s sch"
    unfolding EnsureWindow_def by (rule eq)
  have 3: "queue (EnsureWindow r c s sch) =
     queue sch @ map (\<lambda>p. \<lparr>sjob_position = p, attempt = 0\<rparr>)
                    (filter (\<lambda>p. wants_job r (cache sch p)) [c..<c + s])"
    unfolding EnsureWindow_def using a by simp
  from 1 3 show ?thesis by simp
qed

theorem EnsureWindow_idempotent_witness:
  "map sjob_position (queue (EnsureWindow (\<lambda>reason. True) 30 10 sched_24)) = [34, 35, 36, 37, 38, 39] \<and>
   queue (EnsureWindow (\<lambda>reason. True) 30 10 (EnsureWindow (\<lambda>reason. True) 30 10 sched_24))
     = queue (EnsureWindow (\<lambda>reason. True) 30 10 sched_24)"
proof -
  have "map sjob_position (queue (EnsureWindow (\<lambda>reason. True) 30 10 sched_24))
          = [34, 35, 36, 37, 38, 39]"
    by code_simp
  with EnsureWindow_idempotent[of "\<lambda>reason. True" 30 10 sched_24] show ?thesis by simp
qed

lemma readyCount_le: "readyCountInWindow sch \<le> snd (window sch)"
proof -
  have "readyCountInWindow sch \<le> length [fst (window sch)..<fst (window sch) + snd (window sch)]"
    unfolding readyCountInWindow_def by (rule length_filter_le)
  then show ?thesis by simp
qed

text \<open>
  C5. \<open>bufferHealth\<close> is the exact ratio of the ready positions of the most recent
  window to the window's size: it lies between 0 and 1, it is 0 when the size is 0, and
  with a size of 30 and 24 ready positions it is 0.8.
\<close>

theorem bufferHealth_ratio:
  "0 \<le> bufferHealth sch \<and> bufferHealth sch \<le> 1 \<and>
   bufferHealth sch * of_nat (snd (window sch)) = of_nat (readyCountInWindow sch) \<and>
   (snd (window sch) = 0 \<longrightarrow> bufferHealth sch = 0) \<and>
   (snd (window sch) = 30 \<and> readyCountInWindow sch = 24 \<longrightarrow> bufferHealth sch = 0.8)"
proof -
  have le: "readyCountInWindow sch \<le> snd (window sch)" by (rule readyCount_le)
  have 1: "0 \<le> bufferHealth sch" by (simp add: bufferHealth_def)
  have 2: "bufferHealth sch \<le> 1"
  proof (cases "snd (window sch) = 0")
    case True then show ?thesis by (simp add: bufferHealth_def)
  next
    case False
    then have "(of_nat (readyCountInWindow sch) :: rat) \<le> of_nat (snd (window sch))"
      using le by simp
    then show ?thesis using False by (simp add: bufferHealth_def divide_le_eq)
  qed
  have 3: "bufferHealth sch * of_nat (snd (window sch)) = of_nat (readyCountInWindow sch)"
    using le by (simp add: bufferHealth_def)
  have 4: "snd (window sch) = 0 \<longrightarrow> bufferHealth sch = 0" by (simp add: bufferHealth_def)
  have 5: "snd (window sch) = 30 \<and> readyCountInWindow sch = 24 \<longrightarrow> bufferHealth sch = 0.8"
    by (simp add: bufferHealth_def)
  from 1 2 3 4 5 show ?thesis by blast
qed

theorem bufferHealth_ratio_witness:
  "window (EnsureWindow (\<lambda>reason. True) 10 30 sched_24) = (10, 30) \<and>
   readyCountInWindow (EnsureWindow (\<lambda>reason. True) 10 30 sched_24) = 24 \<and>
   bufferHealth (EnsureWindow (\<lambda>reason. True) 10 30 sched_24) = 0.8"
proof -
  have w: "snd (window (EnsureWindow (\<lambda>reason. True) 10 30 sched_24)) = 30"
    by (simp add: EnsureWindow_def)
  have r: "readyCountInWindow (EnsureWindow (\<lambda>reason. True) 10 30 sched_24) = 24"
    by code_simp
  from bufferHealth_ratio[of "EnsureWindow (\<lambda>reason. True) 10 30 sched_24"] w r
  show ?thesis by (simp add: EnsureWindow_def)
qed


end
